theory Spec2Isabelle
  imports Main "HOL-Library.Word"
begin

text \<open>
  A shallow embedding of \<open>godi\<close>, a container for dependency injection in Go: the
  container of \<open>defaultContainer\<close> with its methods \<open>Lock\<close>, \<open>Bind\<close>, \<open>MustBind\<close>,
  \<open>BindSingleton\<close>, \<open>MustBindSingleton\<close> and \<open>Resolver\<close>, and the generic helpers
  \<open>Resolve\<close> and \<open>MustResolve\<close>. A method that changes the container takes the program
  state and returns the new one; an error is a value; a panic and a call that does not
  return are outcomes of their own.
\<close>

section \<open>Values, errors and outcomes\<close>

text \<open>
  The container stores and hands out values of Go's type \<open>any\<close>. A value of an
  interface type is either \<open>nil\<close> or a dynamic value that carries its dynamic type.
  The universe below holds the concrete types the repository's tests and README use
  (\<open>int\<close>, \<open>string\<close>, \<open>bool\<close>, \<open>uint8\<close>) and the interface type \<open>any\<close> itself.
\<close>

datatype gotype = TInt | TString | TBool | TUint8 | TAny

datatype dynamic = VInt "64 word" | VString string | VBool bool | VUint8 "8 word"

type_synonym any = "dynamic option"

abbreviation nil :: any where
  "nil \<equiv> None"

fun dyn_type :: "dynamic \<Rightarrow> gotype" where
  "dyn_type (VInt _) = TInt"
| "dyn_type (VString _) = TString"
| "dyn_type (VBool _) = TBool"
| "dyn_type (VUint8 _) = TUint8"

text \<open>The zero value of a type: what \<open>var res T\<close> declares.\<close>

fun zero :: "gotype \<Rightarrow> any" where
  "zero TInt = Some (VInt 0)"
| "zero TString = Some (VString [])"
| "zero TBool = Some (VBool False)"
| "zero TUint8 = Some (VUint8 0)"
| "zero TAny = nil"

text \<open>
  The comma-ok type assertion \<open>v, ok := t.(T)\<close> of the Go language: it holds when \<open>t\<close> is
  not \<open>nil\<close> and its dynamic type is \<open>T\<close> (or \<open>T\<close> is the interface \<open>any\<close>, which every
  dynamic value implements); when it fails, \<open>v\<close> is the zero value of \<open>T\<close>.
\<close>

definition type_assert :: "any \<Rightarrow> gotype \<Rightarrow> any \<times> bool" where
  "type_assert t T =
     (case t of
        None \<Rightarrow> (zero T, False)
      | Some x \<Rightarrow> if T = TAny \<or> dyn_type x = T then (Some x, True) else (zero T, False))"

text \<open>
  An \<open>error\<close> is what \<open>errors.New\<close> builds from a message; \<open>Error\<close> reads the message
  back. The four messages of the source follow, each \<open>fmt.Sprintf\<close> written out.
\<close>

datatype error = errors_New string

fun Error :: "error \<Rightarrow> string" where
  "Error (errors_New msg) = msg"

definition Locked :: error where
  "Locked = errors_New ''service container locked. no more services can be bound''"

definition AlreadyBound :: "string \<Rightarrow> error" where
  "AlreadyBound name = errors_New (''service with name '' @ name @ '' already bound'')"

definition NotFound :: "string \<Rightarrow> error" where
  "NotFound name = errors_New (name @ '' service not found in container'')"

definition TypeMismatch :: "string \<Rightarrow> error" where
  "TypeMismatch name = errors_New (''Unable to convert '' @ name @ '' to the requested type'')"

text \<open>
  A call either returns or panics; the argument of \<open>panic\<close> is a string in \<open>MustBind\<close>
  and \<open>MustBindSingleton\<close>, an error in \<open>MustResolve\<close>, and any value in a caller's
  factory. A call that never returns (unbounded recursion, a deadlock) has no outcome:
  it is \<open>None\<close> in the \<open>option\<close> around the outcome.
\<close>

datatype panic = PanicString string | PanicError error | PanicValue any

datatype 'a outcome = Returns 'a | Panics panic

section \<open>Binder functions\<close>

text \<open>
  \<open>BinderFunc = func(resolver ResolverFunc) any\<close> is a closure supplied by the caller (the
  factory of a dependency). What such a closure can do is written as a tree. It can
  return a value or panic; read or update the variables it has captured (the component
  \<open>vars\<close> of the state below, of type \<open>'w\<close>); call the resolver it was given and go on with
  what the call returned, or, when the call panicked, with what it recovered; and, since
  it may have captured the container as well, call \<open>Bind\<close>, \<open>BindSingleton\<close> and \<open>Lock\<close> and
  go on with the error returned.

  \<open>LazyBind a factory\<close> is the closure \<open>bind\<close> that \<open>BindSingleton\<close> builds around the
  \<open>BinderFunc\<close> it is given: \<open>a\<close> is the address of the variables \<open>lazyBind\<close> and \<open>result\<close>
  it captures.
\<close>

datatype 'w BinderFunc =
    Return any
  | Panic panic
  | Update "'w \<Rightarrow> 'w" "'w BinderFunc"
  | Read "'w \<Rightarrow> 'w BinderFunc"
  | CallResolver string "(any \<times> error option) outcome \<Rightarrow> 'w BinderFunc"
  | CallBind string "'w BinderFunc" "error option \<Rightarrow> 'w BinderFunc"
  | CallBindSingleton string "'w BinderFunc" "error option \<Rightarrow> 'w BinderFunc"
  | CallLock "'w BinderFunc"
  | LazyBind nat "'w BinderFunc"

section \<open>The container and the program state\<close>

record 'w defaultContainer =
  locked :: bool
  services :: "string \<rightharpoonup> 'w BinderFunc"

text \<open>
  The variables one call of \<open>BindSingleton\<close> declares and its closure captures:
  \<open>lazyBind\<close>, a \<open>sync.Once\<close> (its \<open>done\<close> flag and whether its mutex \<open>m\<close> is held), and
  \<open>result\<close>.
\<close>

record lazy =
  lazyBind_done :: bool
  lazyBind_m :: bool
  result :: any

text \<open>
  The state of a program that uses one container: the container, the captured
  variables of the singleton closures (a store, addressed by position) and the
  variables the caller's factories capture.
\<close>

record 'w state =
  container :: "'w defaultContainer"
  lazies :: "lazy list"
  vars :: "'w"

type_synonym ('a, 's) call = "'s \<Rightarrow> ('a outcome \<times> 's) option"

type_synonym 's ResolverFunc = "string \<Rightarrow> (any \<times> error option, 's) call"

definition NewContainer :: "'w defaultContainer" where
  "NewContainer = \<lparr>locked = False, services = Map.empty\<rparr>"

definition Lock :: "'w state \<Rightarrow> 'w state" where
  "Lock s = s\<lparr>container := (container s)\<lparr>locked := True\<rparr>\<rparr>"

definition Bind :: "string \<Rightarrow> 'w BinderFunc \<Rightarrow> 'w state \<Rightarrow> error option \<times> 'w state" where
  "Bind name factory s =
     (if locked (container s) then (Some Locked, s)
      else if services (container s) name \<noteq> None then (Some (AlreadyBound name), s)
      else (None, s\<lparr>container := (container s)\<lparr>services := (services (container s))(name \<mapsto> factory)\<rparr>\<rparr>))"

definition MustBind :: "string \<Rightarrow> 'w BinderFunc \<Rightarrow> 'w state \<Rightarrow> unit outcome \<times> 'w state" where
  "MustBind name factory s =
     (case Bind name factory s of
        (Some err, s') \<Rightarrow> (Panics (PanicString (Error err)), s')
      | (None, s') \<Rightarrow> (Returns (), s'))"

text \<open>
  \<open>BindSingleton\<close> declares \<open>lazyBind\<close> and \<open>result\<close> (a new entry of the store, at the
  next free address), builds the closure \<open>bind\<close> and passes it to \<open>Bind\<close>. When \<open>Bind\<close>
  fails the new variables are garbage: no closure that is bound refers to them.
\<close>

definition new_lazy :: lazy where
  "new_lazy = \<lparr>lazyBind_done = False, lazyBind_m = False, result = nil\<rparr>"

definition BindSingleton :: "string \<Rightarrow> 'w BinderFunc \<Rightarrow> 'w state \<Rightarrow> error option \<times> 'w state" where
  "BindSingleton name factory s =
     (let a = length (lazies s);
          bind = LazyBind a factory
      in Bind name bind (s\<lparr>lazies := lazies s @ [new_lazy]\<rparr>))"

definition MustBindSingleton :: "string \<Rightarrow> 'w BinderFunc \<Rightarrow> 'w state \<Rightarrow> unit outcome \<times> 'w state" where
  "MustBindSingleton name factory s =
     (case BindSingleton name factory s of
        (Some err, s') \<Rightarrow> (Panics (PanicString (Error err)), s')
      | (None, s') \<Rightarrow> (Returns (), s'))"

section \<open>Calling a factory, and the resolver\<close>

definition set_lazy :: "nat \<Rightarrow> (lazy \<Rightarrow> lazy) \<Rightarrow> 'w state \<Rightarrow> 'w state" where
  "set_lazy a f s = s\<lparr>lazies := (lazies s)[a := f (lazies s ! a)]\<rparr>"

text \<open>
  \<open>invoke factory resolver\<close> is the call \<open>factory(resolver)\<close>.

  For the closure \<open>bind\<close> of \<open>BindSingleton\<close> it is \<open>lazyBind.Do(func() { result =
  factory(resolver) })\<close> followed by \<open>return result\<close>, with \<open>sync.Once.Do\<close> of the Go
  standard library written out for one thread: when \<open>done\<close> is set, \<open>Do\<close> returns at
  once; otherwise it takes the mutex \<open>m\<close> (and waits for ever when the mutex is held,
  which is what a \<open>Do\<close> from inside its own function does), runs the function, and on the
  way out, also when the function panicked, sets \<open>done\<close> and releases the mutex.
  A closure captures variables that exist: for an address outside the store, which no
  \<open>BindSingleton\<close> produces, the call has no outcome.
\<close>

primrec invoke :: "'w BinderFunc \<Rightarrow> 'w state ResolverFunc \<Rightarrow> (any, 'w state) call" where
  "invoke (Return v) resolver s = Some (Returns v, s)"
| "invoke (Panic p) resolver s = Some (Panics p, s)"
| "invoke (Update f k) resolver s = invoke k resolver (s\<lparr>vars := f (vars s)\<rparr>)"
| "invoke (Read k) resolver s = invoke (k (vars s)) resolver s"
| "invoke (CallResolver name k) resolver s =
     (case resolver name s of
        None \<Rightarrow> None
      | Some (r, s') \<Rightarrow> invoke (k r) resolver s')"
| "invoke (CallBind name factory k) resolver s =
     (case Bind name factory s of (err, s') \<Rightarrow> invoke (k err) resolver s')"
| "invoke (CallBindSingleton name factory k) resolver s =
     (case BindSingleton name factory s of (err, s') \<Rightarrow> invoke (k err) resolver s')"
| "invoke (CallLock k) resolver s = invoke k resolver (Lock s)"
| "invoke (LazyBind a factory) resolver s =
     (if length (lazies s) \<le> a then None
      else if lazyBind_done (lazies s ! a) then Some (Returns (result (lazies s ! a)), s)
      else if lazyBind_m (lazies s ! a) then None
      else
        (case invoke factory resolver (set_lazy a (\<lambda>c. c\<lparr>lazyBind_m := True\<rparr>) s) of
           None \<Rightarrow> None
         | Some (Panics p, s') \<Rightarrow>
             Some (Panics p, set_lazy a (\<lambda>c. c\<lparr>lazyBind_done := True, lazyBind_m := False\<rparr>) s')
         | Some (Returns v, s') \<Rightarrow>
             (let s'' = set_lazy a (\<lambda>c. c\<lparr>lazyBind_done := True, lazyBind_m := False\<rparr>)
                          (set_lazy a (\<lambda>c. c\<lparr>result := v\<rparr>) s')
              in Some (Returns (result (lazies s'' ! a)), s''))))"

text \<open>
  \<open>return factory(resolver), nil\<close>: the value the factory returns, paired with the \<open>nil\<close>
  error. A panic of the factory, or its not returning, is the caller's as well.
\<close>

definition with_nil_error :: "(any outcome \<times> 's) option \<Rightarrow> ((any \<times> error option) outcome \<times> 's) option" where
  "with_nil_error x =
     (case x of
        None \<Rightarrow> None
      | Some (Panics p, s') \<Rightarrow> Some (Panics p, s')
      | Some (Returns v, s') \<Rightarrow> Some (Returns (v, None), s'))"

text \<open>
  \<open>Resolver n\<close> is the function \<open>d.Resolver()\<close> returns, called with room for \<open>n\<close> nested
  resolver calls on the stack (a factory that resolves its own name recurses without
  bound, and has no outcome for any \<open>n\<close>). It reads \<open>d.services\<close> when it is called, and
  hands \<open>d.Resolver()\<close> to the factory it finds.
\<close>

primrec Resolver :: "nat \<Rightarrow> 'w state ResolverFunc" where
  "Resolver 0 name s = None"
| "Resolver (Suc n) name s =
     (case services (container s) name of
        None \<Rightarrow> Some (Returns (nil, Some (NotFound name)), s)
      | Some factory \<Rightarrow> with_nil_error (invoke factory (Resolver n) s))"

section \<open>Typed retrieval\<close>

text \<open>
  \<open>Resolve[T]\<close> and \<open>MustResolve[T]\<close> take any \<open>ResolverFunc\<close>, not only a container's.
  The type parameter is the first argument; a result of static type \<open>T\<close> is written as
  a value of \<open>any\<close> (for a concrete \<open>T\<close>, a dynamic value of that type).
\<close>

definition Resolve :: "gotype \<Rightarrow> string \<Rightarrow> 's ResolverFunc \<Rightarrow> (any \<times> error option, 's) call" where
  "Resolve T name resolver s =
     (case resolver name s of
        None \<Rightarrow> None
      | Some (Panics p, s') \<Rightarrow> Some (Panics p, s')
      | Some (Returns (t, err), s') \<Rightarrow>
          (if err \<noteq> None then Some (Returns (zero T, err), s')
           else
             (case type_assert t T of
                (v, ok) \<Rightarrow>
                  if \<not> ok then Some (Returns (v, Some (TypeMismatch name)), s')
                  else Some (Returns (v, None), s'))))"

definition MustResolve :: "gotype \<Rightarrow> string \<Rightarrow> 's ResolverFunc \<Rightarrow> (any, 's) call" where
  "MustResolve T name resolver s =
     (case Resolve T name resolver s of
        None \<Rightarrow> None
      | Some (Panics p, s') \<Rightarrow> Some (Panics p, s')
      | Some (Returns (value, err), s') \<Rightarrow>
          (case err of
             Some e \<Rightarrow> Some (Panics (PanicError e), s')
           | None \<Rightarrow> Some (Returns value, s')))"

section \<open>Programs that use the container\<close>

text \<open>
  What the code that owns a container can do with it, one call at a time: the six
  methods of \<open>Container\<close> (\<open>Op_Resolver name\<close> is \<open>d.Resolver()(name)\<close>), the two generic
  helpers applied to the container's resolver, and an assignment to the variables its
  factories capture. \<open>exec n op s\<close> is the state after the call (also when the call
  panicked and the caller recovered), \<open>None\<close> when the call does not return; \<open>n\<close> is the
  room for nested resolver calls. \<open>execs\<close> runs a list of calls in order.
\<close>

datatype 'w operation =
    Op_Lock
  | Op_Bind string "'w BinderFunc"
  | Op_MustBind string "'w BinderFunc"
  | Op_BindSingleton string "'w BinderFunc"
  | Op_MustBindSingleton string "'w BinderFunc"
  | Op_Resolver string
  | Op_Resolve gotype string
  | Op_MustResolve gotype string
  | Op_Assign "'w \<Rightarrow> 'w"

fun exec :: "nat \<Rightarrow> 'w operation \<Rightarrow> 'w state \<Rightarrow> 'w state option" where
  "exec n Op_Lock s = Some (Lock s)"
| "exec n (Op_Bind name factory) s = Some (snd (Bind name factory s))"
| "exec n (Op_MustBind name factory) s = Some (snd (MustBind name factory s))"
| "exec n (Op_BindSingleton name factory) s = Some (snd (BindSingleton name factory s))"
| "exec n (Op_MustBindSingleton name factory) s = Some (snd (MustBindSingleton name factory s))"
| "exec n (Op_Resolver name) s = map_option snd (Resolver n name s)"
| "exec n (Op_Resolve T name) s = map_option snd (Resolve T name (Resolver n) s)"
| "exec n (Op_MustResolve T name) s = map_option snd (MustResolve T name (Resolver n) s)"
| "exec n (Op_Assign f) s = Some (s\<lparr>vars := f (vars s)\<rparr>)"

fun execs :: "nat \<Rightarrow> 'w operation list \<Rightarrow> 'w state \<Rightarrow> 'w state option" where
  "execs n [] s = Some s"
| "execs n (op # ops) s = (case exec n op s of None \<Rightarrow> None | Some s' \<Rightarrow> execs n ops s')"

text \<open>
  \<open>later s s'\<close> is what every call keeps of a state, a resolver call as well as a call of
  \<open>Lock\<close> or of a bind: the whole container once it is locked, every binding there is,
  every captured \<open>lazy\<close> whose \<open>sync.Once\<close> is done or whose mutex is held, and the
  addresses in use.
\<close>

definition later :: "'w state \<Rightarrow> 'w state \<Rightarrow> bool" where
  "later s s' \<longleftrightarrow>
     (locked (container s) \<longrightarrow> container s' = container s) \<and>
     (\<forall>name factory. services (container s) name = Some factory \<longrightarrow>
        services (container s') name = Some factory) \<and>
     length (lazies s) \<le> length (lazies s') \<and>
     (\<forall>a<length (lazies s).
        lazyBind_done (lazies s ! a) \<or> lazyBind_m (lazies s ! a) \<longrightarrow> lazies s' ! a = lazies s ! a)"



section \<open>Goroutines\<close>

text \<open>
  The functions above give a call its outcome in one piece, which is what one thread
  sees. For several goroutines that resolve at the same time the same code is written
  as a machine that takes one step at a time, so that the steps of different goroutines
  can follow each other in any order.

  A goroutine is what it does next (its \<open>control\<close>) and the calls that wait for it (its
  stack of frames). \<open>Resolver_frame k\<close> is a factory that called the resolver and goes on
  as \<open>k\<close> with what the call returns; \<open>Do_frame a\<close> is \<open>lazyBind.Do\<close> of the closure \<open>bind\<close>
  with variables at \<open>a\<close>, waiting for \<open>factory(resolver)\<close> inside the function it was
  given.

  The controls follow the code of \<open>bind\<close> and of \<open>sync.Once\<close> in the Go library:
  \<^item> \<open>Calling name\<close>: at the call \<open>d.Resolver()(name)\<close>;
  \<^item> \<open>Running factory\<close>: at the next action of a factory;
  \<^item> for \<open>bind\<close>, \<open>Running (LazyBind a factory)\<close> is the first \<open>o.done.Load()\<close> of \<open>Do\<close>;
    \<open>Locking\<close> is \<open>o.m.Lock()\<close> in \<open>doSlow\<close>, which waits while the mutex is held;
    \<open>Checking\<close> is the second \<open>o.done.Load()\<close>, with the mutex held; \<open>Storing a v\<close> is
    \<open>result = v\<close>, after the factory has returned \<open>v\<close>; \<open>Marking\<close> is the deferred
    \<open>o.done.Store(1)\<close>, \<open>Unlocking\<close> the deferred \<open>o.m.Unlock()\<close>, both reached as well
    when the factory panicked (the panic is then the argument, and goes on after the
    unlock); \<open>Returning\<close> is \<open>return result\<close>;
  \<^item> \<open>Finished r\<close>: the call of the resolver has returned or panicked.
\<close>

datatype 'w frame =
    Resolver_frame "(any \<times> error option) outcome \<Rightarrow> 'w BinderFunc"
  | Do_frame nat

datatype 'w control =
    Calling string
  | Running "'w BinderFunc"
  | Locking nat "'w BinderFunc"
  | Checking nat "'w BinderFunc"
  | Storing nat any
  | Marking nat "panic option"
  | Unlocking nat "panic option"
  | Returning nat
  | Finished "(any \<times> error option) outcome"

type_synonym 'w goroutine = "'w control \<times> 'w frame list"

text \<open>
  A factory returns \<open>v\<close>, or panics, to what waits on top of the stack: to the caller
  of the resolver (which gets \<open>v\<close> and the \<open>nil\<close> error), to the factory that called the
  resolver, or to the function of \<open>lazyBind.Do\<close>.
\<close>

fun returns :: "any \<Rightarrow> 'w frame list \<Rightarrow> 'w goroutine" where
  "returns v [] = (Finished (Returns (v, None)), [])"
| "returns v (Resolver_frame k # st) = (Running (k (Returns (v, None))), st)"
| "returns v (Do_frame a # st) = (Storing a v, st)"

fun panics :: "panic \<Rightarrow> 'w frame list \<Rightarrow> 'w goroutine" where
  "panics p [] = (Finished (Panics p), [])"
| "panics p (Resolver_frame k # st) = (Running (k (Panics p)), st)"
| "panics p (Do_frame a # st) = (Marking a (Some p), st)"


text \<open>
  One step of a goroutine in a state: the new state and the goroutine after the step,
  or \<open>None\<close> when it cannot move (it has finished, or it waits for a mutex).
\<close>

fun go :: "'w state \<Rightarrow> 'w goroutine \<Rightarrow> ('w state \<times> 'w goroutine) option" where
  "go s (Calling name, st) =
     (case services (container s) name of
        None \<Rightarrow> Some (s, Finished (Returns (nil, Some (NotFound name))), st)
      | Some factory \<Rightarrow> Some (s, Running factory, st))"
| "go s (Running (Return v), st) = Some (s, returns v st)"
| "go s (Running (Panic p), st) = Some (s, panics p st)"
| "go s (Running (Update f k), st) = Some (s\<lparr>vars := f (vars s)\<rparr>, Running k, st)"
| "go s (Running (Read k), st) = Some (s, Running (k (vars s)), st)"
| "go s (Running (CallResolver name k), st) =
     (case services (container s) name of
        None \<Rightarrow> Some (s, Running (k (Returns (nil, Some (NotFound name)))), st)
      | Some factory \<Rightarrow> Some (s, Running factory, Resolver_frame k # st))"
| "go s (Running (CallBind name factory k), st) =
     (case Bind name factory s of (err, s') \<Rightarrow> Some (s', Running (k err), st))"
| "go s (Running (CallBindSingleton name factory k), st) =
     (case BindSingleton name factory s of (err, s') \<Rightarrow> Some (s', Running (k err), st))"
| "go s (Running (CallLock k), st) = Some (Lock s, Running k, st)"
| "go s (Running (LazyBind a factory), st) =
     (if length (lazies s) \<le> a then None
      else if lazyBind_done (lazies s ! a) then Some (s, Returning a, st)
      else Some (s, Locking a factory, st))"
| "go s (Locking a factory, st) =
     (if lazyBind_m (lazies s ! a) then None
      else Some (set_lazy a (\<lambda>c. c\<lparr>lazyBind_m := True\<rparr>) s, Checking a factory, st))"
| "go s (Checking a factory, st) =
     (if lazyBind_done (lazies s ! a) then Some (s, Unlocking a None, st)
      else Some (s, Running factory, Do_frame a # st))"
| "go s (Storing a v, st) = Some (set_lazy a (\<lambda>c. c\<lparr>result := v\<rparr>) s, Marking a None, st)"
| "go s (Marking a unwinding, st) =
     Some (set_lazy a (\<lambda>c. c\<lparr>lazyBind_done := True\<rparr>) s, Unlocking a unwinding, st)"
| "go s (Unlocking a unwinding, st) =
     Some (set_lazy a (\<lambda>c. c\<lparr>lazyBind_m := False\<rparr>) s,
       case unwinding of None \<Rightarrow> (Returning a, st) | Some p \<Rightarrow> panics p st)"
| "go s (Returning a, st) = Some (s, returns (result (lazies s ! a)) st)"
| "go s (Finished r, st) = None"

text \<open>
  Goroutines share the state. \<open>step i\<close> lets goroutine \<open>i\<close> take a step, if it can;
  \<open>run schedule\<close> takes the steps a schedule lists, so that every interleaving is the
  run of some schedule. \<open>calls names\<close> are goroutines about to resolve these names, and
  \<open>alone k\<close> is \<open>k\<close> steps of a goroutine that runs by itself. \<open>entries a schedule cfg\<close>
  counts the steps of a run at which the function given to \<open>lazyBind.Do\<close>, for the
  variables at \<open>a\<close>, starts.
\<close>

definition step :: "nat \<Rightarrow> 'w state \<times> 'w goroutine list \<Rightarrow> 'w state \<times> 'w goroutine list" where
  "step i cfg =
     (case cfg of (s, gs) \<Rightarrow>
        if i < length gs
        then (case go s (gs ! i) of None \<Rightarrow> cfg | Some (s', g') \<Rightarrow> (s', gs[i := g']))
        else cfg)"

fun run :: "nat list \<Rightarrow> 'w state \<times> 'w goroutine list \<Rightarrow> 'w state \<times> 'w goroutine list" where
  "run [] cfg = cfg"
| "run (i # schedule) cfg = run schedule (step i cfg)"


definition alone :: "nat \<Rightarrow> 'w state \<times> 'w goroutine \<Rightarrow> 'w state \<times> 'w goroutine" where
  "alone k c = (case run (replicate k 0) (fst c, [snd c]) of (s', gs') \<Rightarrow> (s', gs' ! 0))"

definition enters :: "nat \<Rightarrow> 'w state \<Rightarrow> 'w goroutine \<Rightarrow> bool" where
  "enters a s g =
     (case fst g of
        Checking a' factory \<Rightarrow> a' = a \<and> \<not> lazyBind_done (lazies s ! a)
      | _ \<Rightarrow> False)"


text \<open>
  For the variables at an address: how many times a goroutine holds the mutex (in its
  control and in its frames), whether it has \<open>begun\<close> the function of \<open>lazyBind.Do\<close> and not
  yet marked it done, and whether that function was \<open>entered\<close> at all. \<open>once_inv\<close> is the
  invariant of the mutex: it is held when a goroutine holds it, by one goroutine at
  most, and the \<open>sync.Once\<close> is not done while a goroutine is inside.
\<close>

definition is_do :: "nat \<Rightarrow> 'w frame \<Rightarrow> bool" where
  "is_do a fr = (case fr of Do_frame a' \<Rightarrow> a' = a | Resolver_frame k \<Rightarrow> False)"

definition holding :: "nat \<Rightarrow> 'w goroutine \<Rightarrow> nat" where
  "holding a g =
     (case fst g of
        Checking a' factory \<Rightarrow> if a' = a then 1 else 0
      | Storing a' v \<Rightarrow> if a' = a then 1 else 0
      | Marking a' unwinding \<Rightarrow> if a' = a then 1 else 0
      | Unlocking a' unwinding \<Rightarrow> if a' = a then 1 else 0
      | _ \<Rightarrow> 0) + length (filter (is_do a) (snd g))"

definition begun :: "nat \<Rightarrow> 'w goroutine \<Rightarrow> bool" where
  "begun a g \<longleftrightarrow>
     (case fst g of
        Storing a' v \<Rightarrow> a' = a
      | Marking a' unwinding \<Rightarrow> a' = a
      | _ \<Rightarrow> False) \<or> (\<exists>fr\<in>set (snd g). is_do a fr)"

definition once_inv :: "nat \<Rightarrow> 'w state \<times> 'w goroutine list \<Rightarrow> bool" where
  "once_inv a cfg \<longleftrightarrow>
     a < length (lazies (fst cfg)) \<and>
     sum_list (map (holding a) (snd cfg)) \<le> (if lazyBind_m (lazies (fst cfg) ! a) then 1 else 0) \<and>
     (\<forall>g\<in>set (snd cfg). begun a g \<longrightarrow> \<not> lazyBind_done (lazies (fst cfg) ! a))"


text \<open>
  \<open>resolving name a f s g\<close>: the goroutine \<open>g\<close> is within a call of the resolver for
  \<open>name\<close>, which is bound to the closure \<open>LazyBind a f\<close>; when it has finished with a
  value, the \<open>sync.Once\<close> is done and the value is \<open>result\<close>.
\<close>

definition resolving :: "string \<Rightarrow> nat \<Rightarrow> 'w BinderFunc \<Rightarrow> 'w state \<Rightarrow> 'w goroutine \<Rightarrow> bool" where
  "resolving name a f s g \<longleftrightarrow>
     (case snd g of
        [] \<Rightarrow>
          (case fst g of
             Calling n \<Rightarrow> n = name
           | Running b \<Rightarrow> b = LazyBind a f
           | Locking a' b \<Rightarrow> a' = a
           | Checking a' b \<Rightarrow> a' = a
           | Storing a' v \<Rightarrow> a' = a
           | Marking a' unwinding \<Rightarrow> a' = a
           | Unlocking a' unwinding \<Rightarrow> a' = a \<and> lazyBind_done (lazies s ! a)
           | Returning a' \<Rightarrow> a' = a \<and> lazyBind_done (lazies s ! a)
           | Finished r \<Rightarrow>
               (case r of
                  Returns (v, err) \<Rightarrow>
                    lazyBind_done (lazies s ! a) \<and> v = result (lazies s ! a) \<and> err = None
                | Panics p \<Rightarrow> True))
      | fr # st \<Rightarrow>
          last (fr # st) = Do_frame a \<and>
          (case fst g of Calling n \<Rightarrow> False | Finished r \<Rightarrow> False | _ \<Rightarrow> True))"

section \<open>The containers of the tests\<close>

text \<open>
  The factories and containers of the repository's tests, used to run the theorems on.
  \<open>rand\<close> is the factory of \<open>TestDefaultContainer_Resolver_Instanced\<close> and of
  \<open>TestDefaultContainer_Resolver_Singleton\<close>: it captures \<open>num\<close>, which starts at 10, and
  does \<open>num *= 10; return num\<close>. \<open>handler\<close> is the factory of \<open>TestDefaultContainer_Bind\<close>.
  \<open>foo_bar\<close> is the container of \<open>TestResolve\<close>, \<open>rand_bound\<close> the one of
  \<open>TestDefaultContainer_Resolver_Instanced\<close>, \<open>rand_once\<close> the one of
  \<open>TestDefaultContainer_Resolver_Singleton\<close> and \<open>rand_resolved\<close> the same after \<open>Lock()\<close>
  and one resolution. \<open>twice\<close> is a factory that resolves
  \<open>rand\<close> two times and returns the second value, \<open>boom\<close> one that panics.
  \<open>two_calls\<close> are two goroutines that resolve \<open>rand\<close>, bound as a singleton, and
  \<open>interleaved\<close> is a schedule in which both have read \<open>done\<close> before either takes the
  mutex.
\<close>

definition rand :: "64 word BinderFunc" where
  "rand = Update (\<lambda>num. num * 10) (Read (\<lambda>num. Return (Some (VInt num))))"

definition handler :: "64 word BinderFunc" where
  "handler = Return (Some (VInt 12345))"

definition twice :: "64 word BinderFunc" where
  "twice =
     CallResolver ''rand'' (\<lambda>_.
       CallResolver ''rand'' (\<lambda>r. case r of Returns (v, err) \<Rightarrow> Return v | Panics p \<Rightarrow> Panic p))"

definition empty_test :: "64 word state" where
  "empty_test = \<lparr>container = NewContainer, lazies = [], vars = 10\<rparr>"

definition rand_bound :: "64 word state" where
  "rand_bound = \<lparr>container = \<lparr>locked = False, services = [''rand'' \<mapsto> rand]\<rparr>, lazies = [], vars = 10\<rparr>"

definition twice_bound :: "64 word state" where
  "twice_bound = \<lparr>container = \<lparr>locked = False,
       services = [''rand'' \<mapsto> rand, ''twice'' \<mapsto> twice]\<rparr>, lazies = [], vars = 10\<rparr>"



definition foo_bar :: "64 word state" where
  "foo_bar =
     snd (MustBind ''bar'' (Return (Some (VInt 2)))
       (snd (MustBind ''foo'' (Return (Some (VInt 1))) empty_test)))"

definition boom :: "64 word BinderFunc" where
  "boom = Panic (PanicString ''boom'')"

definition boom_bound :: "64 word state" where
  "boom_bound = \<lparr>container = \<lparr>locked = False, services = [''boom'' \<mapsto> boom]\<rparr>,
     lazies = [], vars = 10\<rparr>"



section \<open>What every call keeps\<close>

lemma later_refl: "later s s"
  by (simp add: later_def)

lemma later_trans:
  assumes 1: "later s s'" and 2: "later s' s''"
  shows "later s s''"
proof -
  have "container s'' = container s" if "locked (container s)"
  proof -
    from 1 that have "container s' = container s" by (simp add: later_def)
    with 2 that show ?thesis by (simp add: later_def)
  qed
  moreover have "services (container s'') name = Some b"
    if "services (container s) name = Some b" for name b
  proof -
    from 1 that have "services (container s') name = Some b" by (simp add: later_def)
    with 2 show ?thesis by (simp add: later_def)
  qed
  moreover from 1 2 have "length (lazies s) \<le> length (lazies s'')"
    by (simp add: later_def)
  moreover have "lazies s'' ! a = lazies s ! a"
    if "a < length (lazies s)" "lazyBind_done (lazies s ! a) \<or> lazyBind_m (lazies s ! a)" for a
  proof -
    from 1 that have eq: "lazies s' ! a = lazies s ! a" and lt: "a < length (lazies s')"
      unfolding later_def by auto
    from eq that(2) have "lazyBind_done (lazies s' ! a) \<or> lazyBind_m (lazies s' ! a)"
      by simp
    with 2 lt have "lazies s'' ! a = lazies s' ! a"
      unfolding later_def by blast
    with eq show ?thesis by simp
  qed
  ultimately show ?thesis by (simp add: later_def)
qed

lemma later_locked: "later s s' \<Longrightarrow> locked (container s) \<Longrightarrow> container s' = container s"
  by (simp add: later_def)

lemma later_binding:
  "later s s' \<Longrightarrow> services (container s) name = Some b \<Longrightarrow> services (container s') name = Some b"
  by (simp add: later_def)


lemma later_vars: "later s (s\<lparr>vars := w\<rparr>)"
  by (simp add: later_def)

lemma Lock_later: "later s (Lock s)"
  by (simp add: Lock_def later_def)

lemma Bind_later: "later s (snd (Bind name b s))"
  by (simp add: Bind_def later_def)

lemma BindSingleton_later: "later s (snd (BindSingleton name b s))"
  by (simp add: BindSingleton_def Bind_def later_def nth_append)

lemma set_lazy_twice: "set_lazy a g (set_lazy a h s) = set_lazy a (\<lambda>c. g (h c)) s"
  by (cases "a < length (lazies s)") (simp_all add: set_lazy_def list_update_beyond not_less)

text \<open>
  A \<open>sync.Once\<close> that is taken, run and marked done: between the first and the last of
  these steps the mutex is held, and what keeps the state with the mutex held keeps the
  state before it was taken, in every \<open>lazy\<close> but this one.
\<close>

lemma later_lazy:
  assumes fresh: "\<not> lazyBind_done (lazies s ! a)" "\<not> lazyBind_m (lazies s ! a)"
    and run: "later (set_lazy a f s) s'"
  shows "later s (set_lazy a g s')"
proof -
  have "lazies (set_lazy a g s') ! b = lazies s ! b"
    if "b < length (lazies s)" "lazyBind_done (lazies s ! b) \<or> lazyBind_m (lazies s ! b)" for b
  proof -
    from that fresh have "b \<noteq> a" by auto
    then have eq: "lazies (set_lazy a f s) ! b = lazies s ! b"
      by (simp add: set_lazy_def)
    have "b < length (lazies (set_lazy a f s))"
      using that(1) by (simp add: set_lazy_def)
    moreover have "lazyBind_done (lazies (set_lazy a f s) ! b) \<or>
        lazyBind_m (lazies (set_lazy a f s) ! b)"
      using that(2) eq by simp
    ultimately have "lazies s' ! b = lazies (set_lazy a f s) ! b"
      using run unfolding later_def by blast
    with eq \<open>b \<noteq> a\<close> show ?thesis
      by (simp add: set_lazy_def)
  qed
  moreover from run have "locked (container s) \<longrightarrow> container (set_lazy a g s') = container s"
    and "\<forall>name b. services (container s) name = Some b \<longrightarrow>
      services (container (set_lazy a g s')) name = Some b"
    and "length (lazies s) \<le> length (lazies (set_lazy a g s'))"
    by (simp_all add: later_def set_lazy_def)
  ultimately show ?thesis
    by (simp add: later_def)
qed

lemma invoke_later:
  assumes R: "\<And>name s r s'. R name s = Some (r, s') \<Longrightarrow> later s s'"
  shows "invoke b R s = Some (r, s') \<Longrightarrow> later s s'"
proof (induction b arbitrary: s r s')
  case (Return v)
  then show ?case by (simp add: later_refl)
next
  case (Panic p)
  then show ?case by (simp add: later_refl)
next
  case (Update f k)
  from Update.prems have "invoke k R (s\<lparr>vars := f (vars s)\<rparr>) = Some (r, s')" by simp
  then have "later (s\<lparr>vars := f (vars s)\<rparr>) s'" by (rule Update.IH)
  with later_vars show ?case by (rule later_trans)
next
  case (Read k)
  from Read.prems have "invoke (k (vars s)) R s = Some (r, s')" by simp
  then show ?case by (rule Read.IH [OF rangeI])
next
  case (CallResolver name k)
  from CallResolver.prems obtain o1 s1 where call: "R name s = Some (o1, s1)"
    and rest: "invoke (k o1) R s1 = Some (r, s')"
    by (auto split: option.splits)
  from call have "later s s1" by (rule R)
  moreover from rest have "later s1 s'" by (rule CallResolver.IH [OF rangeI])
  ultimately show ?case by (rule later_trans)
next
  case (CallBind name f k)
  obtain err s1 where bind: "Bind name f s = (err, s1)" by (cases "Bind name f s")
  with CallBind.prems have "invoke (k err) R s1 = Some (r, s')" by simp
  then have "later s1 s'" by (rule CallBind.IH(2) [OF rangeI])
  moreover from bind Bind_later [of s name f] have "later s s1" by simp
  ultimately show ?case by (rule later_trans [rotated])
next
  case (CallBindSingleton name f k)
  obtain err s1 where bind: "BindSingleton name f s = (err, s1)"
    by (cases "BindSingleton name f s")
  with CallBindSingleton.prems have "invoke (k err) R s1 = Some (r, s')" by simp
  then have "later s1 s'" by (rule CallBindSingleton.IH(2) [OF rangeI])
  moreover from bind BindSingleton_later [of s name f] have "later s s1" by simp
  ultimately show ?case by (rule later_trans [rotated])
next
  case (CallLock k)
  from CallLock.prems have "invoke k R (Lock s) = Some (r, s')" by simp
  then have "later (Lock s) s'" by (rule CallLock.IH)
  with Lock_later show ?case by (rule later_trans)
next
  case (LazyBind a b)
  let ?s = "set_lazy a (\<lambda>c. c\<lparr>lazyBind_m := True\<rparr>) s"
  from LazyBind.prems have len: "a < length (lazies s)"
    by (simp split: if_splits)
  show ?case
  proof (cases "lazyBind_done (lazies s ! a)")
    case True
    with LazyBind.prems len show ?thesis by (simp add: later_refl)
  next
    case False
    with LazyBind.prems len have m: "\<not> lazyBind_m (lazies s ! a)"
      by (simp split: if_splits)
    with LazyBind.prems len False obtain o1 s1 where run: "invoke b R ?s = Some (o1, s1)"
      by (auto split: option.splits)
    then have fr: "later ?s s1" by (rule LazyBind.IH)
    show ?thesis
    proof (cases o1)
      case (Returns v)
      with LazyBind.prems len False m run
      have "s' = set_lazy a (\<lambda>c. c\<lparr>lazyBind_done := True, lazyBind_m := False\<rparr>)
                   (set_lazy a (\<lambda>c. c\<lparr>result := v\<rparr>) s1)"
        by (simp add: Let_def)
      then have "s' = set_lazy a (\<lambda>c. c\<lparr>result := v, lazyBind_done := True, lazyBind_m := False\<rparr>) s1"
        by (simp only: set_lazy_twice)
      then show ?thesis using later_lazy [OF False m fr] by simp
    next
      case (Panics p)
      with LazyBind.prems len False m run
      have "s' = set_lazy a (\<lambda>c. c\<lparr>lazyBind_done := True, lazyBind_m := False\<rparr>) s1"
        by simp
      then show ?thesis using later_lazy [OF False m fr] by simp
    qed
  qed
qed

lemma Resolver_later: "Resolver n name s = Some (r, s') \<Longrightarrow> later s s'"
proof (induction n arbitrary: name s r s')
  case 0
  then show ?case by simp
next
  case (Suc n)
  show ?case
  proof (cases "services (container s) name")
    case None
    with Suc.prems show ?thesis by (simp add: later_refl)
  next
    case (Some b)
    with Suc.prems obtain o1 where "invoke b (Resolver n) s = Some (o1, s')"
      by (auto simp: with_nil_error_def split: option.splits outcome.splits)
    then show ?thesis
      by (rule invoke_later [rotated]) (rule Suc.IH)
  qed
qed

lemma Resolve_state: "Resolve T name R s = Some (r, s') \<Longrightarrow> \<exists>r'. R name s = Some (r', s')"
  by (auto simp: Resolve_def split: option.splits outcome.splits prod.splits if_splits)

lemma MustResolve_state: "MustResolve T name R s = Some (r, s') \<Longrightarrow> \<exists>r'. R name s = Some (r', s')"
  by (auto simp: MustResolve_def split: option.splits outcome.splits prod.splits if_splits dest: Resolve_state)

lemma exec_later: "exec n op s = Some s' \<Longrightarrow> later s s'"
proof (cases op)
  case Op_Lock
  then show "exec n op s = Some s' \<Longrightarrow> later s s'" using Lock_later [of s] by auto
next
  case (Op_Bind name b)
  then show "exec n op s = Some s' \<Longrightarrow> later s s'" using Bind_later [of s name b] by auto
next
  case (Op_MustBind name b)
  then show "exec n op s = Some s' \<Longrightarrow> later s s'" using Bind_later [of s name b]
    by (auto simp: MustBind_def split: prod.splits option.splits)
next
  case (Op_BindSingleton name b)
  then show "exec n op s = Some s' \<Longrightarrow> later s s'" using BindSingleton_later [of s name b] by auto
next
  case (Op_MustBindSingleton name b)
  then show "exec n op s = Some s' \<Longrightarrow> later s s'" using BindSingleton_later [of s name b]
    by (auto simp: MustBindSingleton_def split: prod.splits option.splits)
next
  case (Op_Resolver name)
  then show "exec n op s = Some s' \<Longrightarrow> later s s'"
    by (auto dest!: Resolver_later)
next
  case (Op_Resolve T name)
  then show "exec n op s = Some s' \<Longrightarrow> later s s'"
    by (auto dest!: Resolve_state Resolver_later)
next
  case (Op_MustResolve T name)
  then show "exec n op s = Some s' \<Longrightarrow> later s s'"
    by (auto dest!: MustResolve_state Resolver_later)
next
  case (Op_Assign f)
  then show "exec n op s = Some s' \<Longrightarrow> later s s'" using later_vars [of s] by auto
qed

lemma execs_later: "execs n ops s = Some s' \<Longrightarrow> later s s'"
proof (induction ops arbitrary: s)
  case Nil
  then show ?case by (simp add: later_refl)
next
  case (Cons op ops)
  then show ?case
    by (auto split: option.splits dest: exec_later intro: later_trans)
qed

section \<open>More room on the stack keeps every outcome\<close>

lemma invoke_mono:
  assumes R: "\<And>name s r. R name s = Some r \<Longrightarrow> R' name s = Some r"
  shows "invoke b R s = Some r \<Longrightarrow> invoke b R' s = Some r"
proof (induction b arbitrary: s r)
  case (Return v)
  then show ?case by simp
next
  case (Panic p)
  then show ?case by simp
next
  case (Update f k)
  then show ?case by simp
next
  case (Read k)
  from Read.prems have "invoke (k (vars s)) R s = Some r" by simp
  then have "invoke (k (vars s)) R' s = Some r" by (rule Read.IH [OF rangeI])
  then show ?case by simp
next
  case (CallResolver name k)
  from CallResolver.prems obtain o1 s1 where call: "R name s = Some (o1, s1)"
    and rest: "invoke (k o1) R s1 = Some r"
    by (auto split: option.splits)
  from call have "R' name s = Some (o1, s1)" by (rule R)
  moreover from rest have "invoke (k o1) R' s1 = Some r" by (rule CallResolver.IH [OF rangeI])
  ultimately show ?case by simp
next
  case (CallBind name f k)
  obtain err s1 where bind: "Bind name f s = (err, s1)" by (cases "Bind name f s")
  with CallBind.prems have "invoke (k err) R s1 = Some r" by simp
  then have "invoke (k err) R' s1 = Some r" by (rule CallBind.IH(2) [OF rangeI])
  with bind show ?case by simp
next
  case (CallBindSingleton name f k)
  obtain err s1 where bind: "BindSingleton name f s = (err, s1)"
    by (cases "BindSingleton name f s")
  with CallBindSingleton.prems have "invoke (k err) R s1 = Some r" by simp
  then have "invoke (k err) R' s1 = Some r" by (rule CallBindSingleton.IH(2) [OF rangeI])
  with bind show ?case by simp
next
  case (CallLock k)
  then show ?case by simp
next
  case (LazyBind a b)
  let ?s = "set_lazy a (\<lambda>c. c\<lparr>lazyBind_m := True\<rparr>) s"
  show ?case
  proof (cases "length (lazies s) \<le> a \<or> lazyBind_done (lazies s ! a) \<or> lazyBind_m (lazies s ! a)")
    case True
    then have "invoke (LazyBind a b) R' s = invoke (LazyBind a b) R s" by auto
    with LazyBind.prems show ?thesis by simp
  next
    case False
    with LazyBind.prems obtain x where x: "invoke b R ?s = Some x"
      by (auto split: option.splits)
    then have "invoke b R' ?s = Some x" by (rule LazyBind.IH)
    with x have "invoke (LazyBind a b) R' s = invoke (LazyBind a b) R s" by simp
    with LazyBind.prems show ?thesis by simp
  qed
qed

lemma Resolver_Suc: "Resolver n name s = Some r \<Longrightarrow> Resolver (Suc n) name s = Some r"
proof (induction n arbitrary: name s r)
  case 0
  then show ?case by simp
next
  case (Suc n)
  show ?case
  proof (cases "services (container s) name")
    case None
    with Suc.prems show ?thesis by simp
  next
    case (Some b)
    with Suc.prems obtain x where x: "invoke b (Resolver n) s = Some x"
      by (auto simp: with_nil_error_def split: option.splits)
    then have "invoke b (Resolver (Suc n)) s = Some x"
      by (rule invoke_mono [rotated]) (rule Suc.IH)
    with x Some Suc.prems show ?thesis by simp
  qed
qed

lemma Resolver_mono: "n \<le> m \<Longrightarrow> Resolver n name s = Some r \<Longrightarrow> Resolver m name s = Some r"
  by (induction m) (auto simp: le_Suc_eq dest: Resolver_Suc simp del: Resolver.simps)

section \<open>Typed retrieval: properties\<close>

lemma type_assert_fails_zero: "snd (type_assert t T) = False \<Longrightarrow> fst (type_assert t T) = zero T"
  by (auto simp: type_assert_def split: option.splits if_splits)

lemma type_assert_ok:
  "snd (type_assert t T) \<longleftrightarrow> (\<exists>x. t = Some x \<and> (T = TAny \<or> dyn_type x = T))"
  by (auto simp: type_assert_def split: option.splits)

lemma type_assert_value: "snd (type_assert t T) \<Longrightarrow> fst (type_assert t T) = t"
  by (auto simp: type_assert_def split: option.splits if_splits)

lemma foo_bar_services:
  "services (container foo_bar) =
     [''foo'' \<mapsto> Return (Some (VInt 1)), ''bar'' \<mapsto> Return (Some (VInt 2))]"
  by (simp add: foo_bar_def empty_test_def MustBind_def Bind_def NewContainer_def)

lemma Resolver_foo_bar:
  "Resolver 1 ''bar'' foo_bar = Some (Returns (Some (VInt 2), None), foo_bar)"
  by (simp add: foo_bar_services with_nil_error_def)

lemma Resolver_foo_baz:
  "Resolver 1 ''baz'' foo_bar = Some (Returns (nil, Some (NotFound ''baz'')), foo_bar)"
  by (simp add: foo_bar_services)

text \<open>
  C7: \<open>Resolve[T](name, resolver)\<close>, for every name and every resolver whose call
  returns \<open>(t, err)\<close>: when \<open>err\<close> is not \<open>nil\<close> it returns the zero value of \<open>T\<close> and
  that same error; when \<open>err\<close> is \<open>nil\<close> and \<open>t\<close> does not hold a value of type \<open>T\<close> it
  returns a \<open>TypeMismatch\<close> error; when \<open>err\<close> is \<open>nil\<close> and \<open>t\<close> holds a value of type \<open>T\<close>
  it returns that value and \<open>nil\<close>. The state is the one the resolver left.
\<close>

theorem Resolve_contract:
  assumes "resolver name s = Some (Returns (t, err), s')"
  shows "(err \<noteq> None \<longrightarrow> Resolve T name resolver s = Some (Returns (zero T, err), s')) \<and>
    (err = None \<and> \<not> (\<exists>x. t = Some x \<and> (T = TAny \<or> dyn_type x = T)) \<longrightarrow>
       (\<exists>v. Resolve T name resolver s = Some (Returns (v, Some (TypeMismatch name)), s'))) \<and>
    (err = None \<and> (\<exists>x. t = Some x \<and> (T = TAny \<or> dyn_type x = T)) \<longrightarrow>
       Resolve T name resolver s = Some (Returns (t, None), s'))"
  using assms type_assert_ok [of t T] type_assert_value [of t T]
  by (auto simp: Resolve_def split: prod.splits)

text \<open>
  The three cases on the container of \<open>TestResolve\<close>: \<open>baz\<close> is not bound, \<open>bar\<close> is an
  \<open>int\<close> and not a \<open>string\<close>.
\<close>

theorem Resolve_contract_witness:
  "Resolve TInt ''baz'' (Resolver 1) foo_bar =
     Some (Returns (Some (VInt 0), Some (NotFound ''baz'')), foo_bar) \<and>
   (\<exists>v. Resolve TString ''bar'' (Resolver 1) foo_bar =
     Some (Returns (v, Some (TypeMismatch ''bar'')), foo_bar)) \<and>
   Resolve TInt ''bar'' (Resolver 1) foo_bar = Some (Returns (Some (VInt 2), None), foo_bar)"
proof -
  from Resolve_contract [where resolver = "Resolver 1" and name = "''baz''" and s = foo_bar
      and t = nil and err = "Some (NotFound ''baz'')" and s' = foo_bar and T = TInt]
    Resolve_contract [where resolver = "Resolver 1" and name = "''bar''" and s = foo_bar
      and t = "Some (VInt 2)" and err = None and s' = foo_bar and T = TString]
    Resolve_contract [where resolver = "Resolver 1" and name = "''bar''" and s = foo_bar
      and t = "Some (VInt 2)" and err = None and s' = foo_bar and T = TInt]
    Resolver_foo_baz Resolver_foo_bar
  show ?thesis by simp
qed

text \<open>
  C10: when the resolver returns \<open>(t, nil)\<close> and the assertion \<open>t.(T)\<close> fails, the value
  \<open>Resolve[T]\<close> returns beside the \<open>TypeMismatch\<close> error is the zero value of \<open>T\<close>.
\<close>

theorem Resolve_mismatch_zero:
  assumes "resolver name s = Some (Returns (t, None), s')"
    and "\<not> snd (type_assert t T)"
  shows "Resolve T name resolver s = Some (Returns (zero T, Some (TypeMismatch name)), s')"
  using assms type_assert_fails_zero [of t T]
  by (auto simp: Resolve_def split: prod.splits)

text \<open>\<open>Resolve[string]("bar", container.Resolver())\<close> of \<open>TestResolve\<close> returns the empty string.\<close>

theorem Resolve_mismatch_zero_witness:
  "Resolver 1 ''bar'' foo_bar = Some (Returns (Some (VInt 2), None), foo_bar) \<and>
   \<not> snd (type_assert (Some (VInt 2)) TString) \<and>
   Resolve TString ''bar'' (Resolver 1) foo_bar =
     Some (Returns (Some (VString []),
       Some (errors_New ''Unable to convert bar to the requested type'')), foo_bar)"
proof -
  have h: "\<not> snd (type_assert (Some (VInt 2)) TString)"
    by (simp add: type_assert_def)
  from Resolve_mismatch_zero [where resolver = "Resolver 1" and name = "''bar''" and s = foo_bar
      and t = "Some (VInt 2)" and s' = foo_bar and T = TString] Resolver_foo_bar h
  show ?thesis
    by (simp add: TypeMismatch_def)
qed

section \<open>The resolver: properties\<close>

text \<open>
  C6: for every name with no binding, the function \<open>Resolver()\<close> returns, called with
  that name, returns \<open>nil\<close> and a \<open>NotFound\<close> error; it does not panic and it leaves the
  state as it was.
\<close>

theorem Resolver_not_found:
  assumes "services (container s) name = None"
  shows "Resolver (Suc n) name s = Some (Returns (nil, Some (NotFound name)), s)"
  using assms by simp

text \<open>\<open>resolver("baz")\<close> on the container of \<open>TestResolve\<close>.\<close>

theorem Resolver_not_found_witness:
  "services (container foo_bar) ''baz'' = None \<and>
   Resolver 1 ''baz'' foo_bar =
     Some (Returns (nil, Some (errors_New ''baz service not found in container'')), foo_bar)"
proof -
  have h: "services (container foo_bar) ''baz'' = None"
    by (simp add: foo_bar_services)
  from Resolver_not_found [OF h, of 0] h show ?thesis
    by (simp add: NotFound_def)
qed

section \<open>Binding and locking: properties\<close>

lemma foo_bar_eq:
  "foo_bar = \<lparr>container = \<lparr>locked = False,
       services = [''foo'' \<mapsto> Return (Some (VInt 1)), ''bar'' \<mapsto> Return (Some (VInt 2))]\<rparr>,
     lazies = [], vars = 10\<rparr>"
  by (simp add: foo_bar_def empty_test_def MustBind_def Bind_def NewContainer_def)

text \<open>
  C1: for every name that is not bound in a container that is not locked, \<open>Bind(name, f)\<close>
  returns \<open>nil\<close> and stores \<open>f\<close> under the name; and in every state the program reaches
  afterwards, by any calls, a call of the resolver with that name is a new call of \<open>f\<close>
  in that state: its outcome is the outcome of \<open>f\<close>, paired with the \<open>nil\<close> error.
\<close>

theorem Bind_unbound:
  assumes "\<not> locked (container s)" and "services (container s) name = None"
  shows "Bind name f s =
      (None, s\<lparr>container := (container s)\<lparr>services := (services (container s))(name \<mapsto> f)\<rparr>\<rparr>) \<and>
    (\<forall>n ops s' k. execs n ops (snd (Bind name f s)) = Some s' \<longrightarrow>
       Resolver (Suc k) name s' = with_nil_error (invoke f (Resolver k) s'))"
proof -
  from assms have bind: "Bind name f s =
      (None, s\<lparr>container := (container s)\<lparr>services := (services (container s))(name \<mapsto> f)\<rparr>\<rparr>)"
    by (simp add: Bind_def)
  have "Resolver (Suc k) name s' = with_nil_error (invoke f (Resolver k) s')"
    if "execs n ops (snd (Bind name f s)) = Some s'" for n ops s' k
  proof -
    from that have "later (snd (Bind name f s)) s'" by (rule execs_later)
    moreover from bind have "services (container (snd (Bind name f s))) name = Some f" by simp
    ultimately have "services (container s') name = Some f" by (rule later_binding)
    then show ?thesis by simp
  qed
  with bind show ?thesis by blast
qed

text \<open>
  \<open>TestDefaultContainer_Resolver_Instanced\<close>: two resolutions in a row run \<open>rand\<close> two
  times and return different values, 100 and then 1000.
\<close>

theorem Bind_unbound_witness:
  "\<not> locked (container empty_test) \<and> services (container empty_test) ''rand'' = None \<and>
   Bind ''rand'' rand empty_test = (None, rand_bound) \<and>
   Resolver 1 ''rand'' rand_bound = Some (Returns (Some (VInt 100), None), rand_bound\<lparr>vars := 100\<rparr>) \<and>
   Resolver 1 ''rand'' (rand_bound\<lparr>vars := 100\<rparr>) =
     Some (Returns (Some (VInt 1000), None), rand_bound\<lparr>vars := 1000\<rparr>)"
proof -
  have 1: "\<not> locked (container empty_test)" and 2: "services (container empty_test) ''rand'' = None"
    by (simp_all add: empty_test_def NewContainer_def)
  note inst = Bind_unbound [OF 1 2, of rand]
  from inst have b: "Bind ''rand'' rand empty_test = (None, rand_bound)"
    by (simp add: rand_bound_def empty_test_def NewContainer_def)
  have r: "invoke rand (Resolver 0) (s\<lparr>vars := w\<rparr>) = Some (Returns (Some (VInt (w * 10))), s\<lparr>vars := w * 10\<rparr>)" for s :: "64 word state" and w
    by (simp add: rand_def)
  from inst b have "execs 0 [] rand_bound = Some rand_bound \<longrightarrow>
      Resolver 1 ''rand'' rand_bound = with_nil_error (invoke rand (Resolver 0) rand_bound)"
    by (metis One_nat_def snd_conv)
  then have first: "Resolver 1 ''rand'' rand_bound = Some (Returns (Some (VInt 100), None), rand_bound\<lparr>vars := 100\<rparr>)"
    using r [where s = rand_bound and w = 10] by (simp add: with_nil_error_def rand_bound_def)
  from inst b have "execs 1 [Op_Resolver ''rand''] rand_bound = Some (rand_bound\<lparr>vars := 100\<rparr>) \<longrightarrow>
      Resolver 1 ''rand'' (rand_bound\<lparr>vars := 100\<rparr>) = with_nil_error (invoke rand (Resolver 0) (rand_bound\<lparr>vars := 100\<rparr>))"
    by (metis One_nat_def snd_conv)
  then have "Resolver 1 ''rand'' (rand_bound\<lparr>vars := 100\<rparr>) =
     Some (Returns (Some (VInt 1000), None), rand_bound\<lparr>vars := 1000\<rparr>)"
    using first r [where s = rand_bound and w = 100] by (simp add: with_nil_error_def)
  with 1 2 b first show ?thesis by simp
qed

text \<open>
  C3: for every name that is bound in a container that is not locked, \<open>Bind(name, f2)\<close>
  returns an \<open>AlreadyBound\<close> error and changes nothing; \<open>BindSingleton(name, f2)\<close> returns
  the same error and changes nothing but the store, where the variables it declared
  stay behind; and in every state the program reaches afterwards, by any calls, the
  name is still bound to the first factory, which is the one the resolver calls.
\<close>

theorem Bind_already_bound:
  assumes "\<not> locked (container s)" and "services (container s) name = Some f"
  shows "Bind name f2 s = (Some (AlreadyBound name), s) \<and>
    BindSingleton name f2 s = (Some (AlreadyBound name), s\<lparr>lazies := lazies s @ [new_lazy]\<rparr>) \<and>
    (\<forall>n ops s'. execs n ops s = Some s' \<longrightarrow>
       services (container s') name = Some f \<and>
       (\<forall>k. Resolver (Suc k) name s' = with_nil_error (invoke f (Resolver k) s')))"
proof -
  have "services (container s') name = Some f \<and>
       (\<forall>k. Resolver (Suc k) name s' = with_nil_error (invoke f (Resolver k) s'))"
    if "execs n ops s = Some s'" for n ops s'
  proof -
    from that have "later s s'" by (rule execs_later)
    then have "services (container s') name = Some f"
      using assms(2) by (rule later_binding)
    then show ?thesis by simp
  qed
  with assms show ?thesis
    by (simp add: Bind_def BindSingleton_def)
qed

text \<open>
  \<open>TestDefaultContainer_Bind\<close> and \<open>TestDefaultContainer_BindSingleton\<close>: \<open>foo\<close> is bound a
  second time.
\<close>

theorem Bind_already_bound_witness:
  "\<not> locked (container foo_bar) \<and>
   services (container foo_bar) ''foo'' = Some (Return (Some (VInt 1))) \<and>
   Bind ''foo'' handler foo_bar =
     (Some (errors_New ''service with name foo already bound''), foo_bar) \<and>
   fst (BindSingleton ''foo'' handler foo_bar) = Some (AlreadyBound ''foo'') \<and>
   execs 1 [Op_Bind ''foo'' handler, Op_BindSingleton ''foo'' handler] foo_bar =
     Some (foo_bar\<lparr>lazies := [new_lazy]\<rparr>) \<and>
   Resolver 1 ''foo'' (foo_bar\<lparr>lazies := [new_lazy]\<rparr>) =
     Some (Returns (Some (VInt 1), None), foo_bar\<lparr>lazies := [new_lazy]\<rparr>)"
proof -
  have 1: "\<not> locked (container foo_bar)"
    and 2: "services (container foo_bar) ''foo'' = Some (Return (Some (VInt 1)))"
    by (simp_all add: foo_bar_eq)
  have 3: "execs 1 [Op_Bind ''foo'' handler, Op_BindSingleton ''foo'' handler] foo_bar =
     Some (foo_bar\<lparr>lazies := [new_lazy]\<rparr>)"
    by (simp add: foo_bar_eq Bind_def BindSingleton_def)
  from Bind_already_bound [OF 1 2, of handler] 1 2 3 show ?thesis
    by (simp add: AlreadyBound_def with_nil_error_def)
qed

text \<open>
  C4: in every state the program reaches after \<open>Lock()\<close>, by any calls, \<open>Bind\<close> and
  \<open>BindSingleton\<close> return the \<open>Locked\<close> error for every name, bound or not, and leave
  the container as it was.
\<close>

theorem Bind_locked:
  assumes "execs n ops (Lock s) = Some s'"
  shows "Bind name factory s' = (Some Locked, s') \<and>
    fst (BindSingleton name factory s') = Some Locked \<and>
    container (snd (BindSingleton name factory s')) = container s'"
proof -
  from assms have "later (Lock s) s'" by (rule execs_later)
  moreover have "locked (container (Lock s))" by (simp add: Lock_def)
  ultimately have "locked (container s')" by (simp add: later_def)
  then show ?thesis by (simp add: Bind_def BindSingleton_def)
qed

text \<open>
  \<open>TestDefaultContainer_Lock\<close>, with a name that is not bound and one that is.
\<close>

theorem Bind_locked_witness:
  "execs 1 [Op_Resolver ''foo''] (Lock foo_bar) = Some (Lock foo_bar) \<and>
   Bind ''baz'' handler (Lock foo_bar) = (Some Locked, Lock foo_bar) \<and>
   Bind ''foo'' handler (Lock foo_bar) = (Some Locked, Lock foo_bar) \<and>
   fst (BindSingleton ''baz'' handler (Lock foo_bar)) =
     Some (errors_New ''service container locked. no more services can be bound'')"
proof -
  have h: "execs 1 [Op_Resolver ''foo''] (Lock foo_bar) = Some (Lock foo_bar)"
    by (simp add: foo_bar_eq Lock_def with_nil_error_def)
  from h Bind_locked [OF h, of "''baz''" handler] Bind_locked [OF h, of "''foo''" handler]
  show ?thesis by (simp add: Locked_def)
qed

text \<open>
  C5: \<open>Lock()\<close> sets \<open>locked\<close>; a second \<open>Lock()\<close> changes nothing; \<open>Lock()\<close> changes
  neither the bindings nor the captured variables of the singletons nor those of the
  factories; and from a locked container, whatever calls follow, \<open>locked\<close> stays set
  and the bindings stay the same.
\<close>

theorem Lock_monotonic:
  "locked (container (Lock s)) \<and> Lock (Lock s) = Lock s \<and>
   services (container (Lock s)) = services (container s) \<and>
   lazies (Lock s) = lazies s \<and> vars (Lock s) = vars s \<and>
   (\<forall>n ops s'. locked (container s) \<and> execs n ops s = Some s' \<longrightarrow>
      locked (container s') \<and> services (container s') = services (container s))"
proof -
  have "locked (container s') \<and> services (container s') = services (container s)"
    if "locked (container s)" "execs n ops s = Some s'" for n ops s'
  proof -
    from that(2) have "later s s'" by (rule execs_later)
    with that(1) have "container s' = container s" by (simp add: later_def)
    with that(1) show ?thesis by simp
  qed
  then show ?thesis by (auto simp: Lock_def)
qed

text \<open>
  Six calls on the locked container of \<open>TestResolve\<close>: binds of new and of bound names,
  a second lock, and resolutions.
\<close>

theorem Lock_monotonic_witness:
  "locked (container (Lock foo_bar)) \<and>
   (\<exists>s'. execs 1 [Op_Bind ''baz'' handler, Op_BindSingleton ''foo'' rand, Op_Lock,
            Op_MustBindSingleton ''qux'' rand, Op_Resolver ''bar'', Op_MustResolve TInt ''baz'']
            (Lock foo_bar) = Some s' \<and>
      locked (container s') \<and> services (container s') = services (container foo_bar))"
proof -
  let ?ops = "[Op_Bind ''baz'' handler, Op_BindSingleton ''foo'' rand, Op_Lock,
    Op_MustBindSingleton ''qux'' rand, Op_Resolver ''bar'', Op_MustResolve TInt ''baz'']"
  have "\<exists>s'. execs 1 ?ops (Lock foo_bar) = Some s'"
    by (simp add: foo_bar_eq Lock_def Bind_def BindSingleton_def MustBindSingleton_def
        MustResolve_def Resolve_def with_nil_error_def)
  then obtain s' where h: "execs 1 ?ops (Lock foo_bar) = Some s'" ..
  from Lock_monotonic [of foo_bar] have 1: "locked (container (Lock foo_bar))"
    and 2: "services (container (Lock foo_bar)) = services (container foo_bar)" by simp_all
  from Lock_monotonic [of "Lock foo_bar"] 1 h
  have "locked (container s') \<and> services (container s') = services (container (Lock foo_bar))"
    by blast
  with 1 2 h show ?thesis by simp
qed

section \<open>The variants that panic\<close>

lemma MustBind_cases:
  "((\<exists>p. fst (MustBind name factory s) = Panics p) \<longleftrightarrow> fst (Bind name factory s) \<noteq> None) \<and>
   (\<forall>err. fst (Bind name factory s) = Some err \<longrightarrow>
      fst (MustBind name factory s) = Panics (PanicString (Error err))) \<and>
   (fst (Bind name factory s) = None \<longrightarrow> fst (MustBind name factory s) = Returns ()) \<and>
   snd (MustBind name factory s) = snd (Bind name factory s)"
  by (cases "Bind name factory s") (auto simp: MustBind_def split: option.splits)

lemma MustBindSingleton_cases:
  "((\<exists>p. fst (MustBindSingleton name factory s) = Panics p) \<longleftrightarrow>
      fst (BindSingleton name factory s) \<noteq> None) \<and>
   (\<forall>err. fst (BindSingleton name factory s) = Some err \<longrightarrow>
      fst (MustBindSingleton name factory s) = Panics (PanicString (Error err))) \<and>
   (fst (BindSingleton name factory s) = None \<longrightarrow>
      fst (MustBindSingleton name factory s) = Returns ()) \<and>
   snd (MustBindSingleton name factory s) = snd (BindSingleton name factory s)"
  by (cases "BindSingleton name factory s") (auto simp: MustBindSingleton_def split: option.splits)

lemma MustResolve_panics_iff:
  "MustResolve T name resolver st = Some (Panics p, s') \<longleftrightarrow>
     (\<exists>v err. Resolve T name resolver st = Some (Returns (v, Some err), s') \<and> p = PanicError err) \<or>
     Resolve T name resolver st = Some (Panics p, s')"
  by (auto simp: MustResolve_def split: option.splits outcome.splits prod.splits)

lemma MustResolve_returns_iff:
  "MustResolve T name resolver st = Some (Returns v, s') \<longleftrightarrow>
     Resolve T name resolver st = Some (Returns (v, None), s')"
  by (auto simp: MustResolve_def split: option.splits outcome.splits prod.splits)

lemma MustResolve_None_iff:
  "MustResolve T name resolver st = None \<longleftrightarrow> Resolve T name resolver st = None"
  by (auto simp: MustResolve_def split: option.splits outcome.splits prod.splits)

text \<open>
  C8, as amended: \<open>MustBind\<close> panics exactly when \<open>Bind\<close>, on the same arguments and
  state, returns an error, and then with that error's message; when \<open>Bind\<close> returns
  \<open>nil\<close> it returns; either way it leaves the state \<open>Bind\<close> leaves. The same holds of
  \<open>MustBindSingleton\<close> and \<open>BindSingleton\<close>. \<open>MustResolve[T]\<close> panics exactly when
  \<open>Resolve[T]\<close> returns an error, and then with that error, or when \<open>Resolve[T]\<close> itself
  panics (a panic of the resolver or of a factory, which neither function recovers),
  and then with the same panic; it returns \<open>v\<close> exactly when \<open>Resolve[T]\<close> returns \<open>v\<close> and
  \<open>nil\<close>, and it does not return exactly when \<open>Resolve[T]\<close> does not; the state is the
  same in each case.
\<close>

theorem Must_variants:
  "((\<exists>p. fst (MustBind name factory s) = Panics p) \<longleftrightarrow> fst (Bind name factory s) \<noteq> None) \<and>
   (\<forall>err. fst (Bind name factory s) = Some err \<longrightarrow>
      fst (MustBind name factory s) = Panics (PanicString (Error err))) \<and>
   (fst (Bind name factory s) = None \<longrightarrow> fst (MustBind name factory s) = Returns ()) \<and>
   snd (MustBind name factory s) = snd (Bind name factory s) \<and>
   ((\<exists>p. fst (MustBindSingleton name factory s) = Panics p) \<longleftrightarrow>
      fst (BindSingleton name factory s) \<noteq> None) \<and>
   (\<forall>err. fst (BindSingleton name factory s) = Some err \<longrightarrow>
      fst (MustBindSingleton name factory s) = Panics (PanicString (Error err))) \<and>
   (fst (BindSingleton name factory s) = None \<longrightarrow>
      fst (MustBindSingleton name factory s) = Returns ()) \<and>
   snd (MustBindSingleton name factory s) = snd (BindSingleton name factory s) \<and>
   ((\<exists>p s'. MustResolve T name resolver st = Some (Panics p, s')) \<longleftrightarrow>
      (\<exists>v err s'. Resolve T name resolver st = Some (Returns (v, Some err), s')) \<or>
      (\<exists>p s'. Resolve T name resolver st = Some (Panics p, s'))) \<and>
   (\<forall>p s'. MustResolve T name resolver st = Some (Panics p, s') \<longleftrightarrow>
      (\<exists>v err. Resolve T name resolver st = Some (Returns (v, Some err), s') \<and>
         p = PanicError err) \<or>
      Resolve T name resolver st = Some (Panics p, s')) \<and>
   (\<forall>v s'. MustResolve T name resolver st = Some (Returns v, s') \<longleftrightarrow>
      Resolve T name resolver st = Some (Returns (v, None), s')) \<and>
   (MustResolve T name resolver st = None \<longleftrightarrow> Resolve T name resolver st = None)"
proof -
  have 1: "(\<exists>p s'. MustResolve T name resolver st = Some (Panics p, s')) \<longleftrightarrow>
      (\<exists>v err s'. Resolve T name resolver st = Some (Returns (v, Some err), s')) \<or>
      (\<exists>p s'. Resolve T name resolver st = Some (Panics p, s'))"
    unfolding MustResolve_panics_iff by blast
  have 2: "\<forall>p s'. MustResolve T name resolver st = Some (Panics p, s') \<longleftrightarrow>
      (\<exists>v err. Resolve T name resolver st = Some (Returns (v, Some err), s') \<and>
         p = PanicError err) \<or>
      Resolve T name resolver st = Some (Panics p, s')"
    by (intro allI) (rule MustResolve_panics_iff)
  have 3: "\<forall>v s'. MustResolve T name resolver st = Some (Returns v, s') \<longleftrightarrow>
      Resolve T name resolver st = Some (Returns (v, None), s')"
    by (intro allI) (rule MustResolve_returns_iff)
  from MustBind_cases [of name factory s] MustBindSingleton_cases [of name factory s]
    1 2 3 MustResolve_None_iff [of T name resolver st]
  show ?thesis by (elim conjE) (intro conjI; assumption)
qed

text \<open>
  \<open>TestDefaultContainer_MustBind\<close>, \<open>TestDefaultContainer_MustBindSingleton\<close> and
  \<open>TestMustResolve\<close>, beside calls that succeed and a factory that panics.
\<close>

theorem Must_variants_witness:
  "Bind ''foo'' handler foo_bar = (Some (AlreadyBound ''foo''), foo_bar) \<and>
   MustBind ''foo'' handler foo_bar =
     (Panics (PanicString ''service with name foo already bound''), foo_bar) \<and>
   fst (Bind ''baz'' handler foo_bar) = None \<and>
   MustBind ''baz'' handler foo_bar = (Returns (), snd (Bind ''baz'' handler foo_bar)) \<and>
   fst (MustBindSingleton ''foo'' handler foo_bar) =
     Panics (PanicString ''service with name foo already bound'') \<and>
   MustBindSingleton ''baz'' handler foo_bar =
     (Returns (), snd (BindSingleton ''baz'' handler foo_bar)) \<and>
   MustResolve TInt ''baz'' (Resolver 1) foo_bar =
     Some (Panics (PanicError (NotFound ''baz'')), foo_bar) \<and>
   MustResolve TInt ''bar'' (Resolver 1) foo_bar = Some (Returns (Some (VInt 2)), foo_bar) \<and>
   MustResolve TInt ''boom'' (Resolver 1) boom_bound =
     Some (Panics (PanicString ''boom''), boom_bound)"
proof -
  note foo = Must_variants [where name = "''foo''" and factory = handler and s = foo_bar
      and T = TInt and resolver = "Resolver 1" and st = foo_bar]
  note baz = Must_variants [where name = "''baz''" and factory = handler and s = foo_bar
      and T = TInt and resolver = "Resolver 1" and st = foo_bar]
  note bar = Must_variants [where name = "''bar''" and factory = handler and s = foo_bar
      and T = TInt and resolver = "Resolver 1" and st = foo_bar]
  note boom = Must_variants [where name = "''boom''" and factory = handler and s = boom_bound
      and T = TInt and resolver = "Resolver 1" and st = boom_bound]
  have b1: "Bind ''foo'' handler foo_bar = (Some (AlreadyBound ''foo''), foo_bar)"
    and b2: "fst (Bind ''baz'' handler foo_bar) = None"
    and b3: "fst (BindSingleton ''foo'' handler foo_bar) = Some (AlreadyBound ''foo'')"
    and b4: "fst (BindSingleton ''baz'' handler foo_bar) = None"
    by (simp_all add: foo_bar_eq Bind_def BindSingleton_def)
  have r1: "Resolve TInt ''baz'' (Resolver 1) foo_bar =
      Some (Returns (Some (VInt 0), Some (NotFound ''baz'')), foo_bar)"
    using Resolver_foo_baz by (simp add: Resolve_def del: Resolver.simps)
  have r2: "Resolve TInt ''bar'' (Resolver 1) foo_bar = Some (Returns (Some (VInt 2), None), foo_bar)"
    using Resolver_foo_bar by (simp add: Resolve_def type_assert_def del: Resolver.simps)
  have r3: "Resolve TInt ''boom'' (Resolver 1) boom_bound =
      Some (Panics (PanicString ''boom''), boom_bound)"
    by (simp add: Resolve_def boom_bound_def boom_def with_nil_error_def)
  from foo b1 have "fst (MustBind ''foo'' handler foo_bar) =
      Panics (PanicString (Error (AlreadyBound ''foo'')))"
    and "snd (MustBind ''foo'' handler foo_bar) = snd (Bind ''foo'' handler foo_bar)"
    by (metis fst_conv)+
  with b1 have m1: "MustBind ''foo'' handler foo_bar =
     (Panics (PanicString ''service with name foo already bound''), foo_bar)"
    by (simp add: prod_eq_iff AlreadyBound_def)
  from foo b3 have m3: "fst (MustBindSingleton ''foo'' handler foo_bar) =
      Panics (PanicString (Error (AlreadyBound ''foo'')))"
    by metis
  from baz b2 have "fst (MustBind ''baz'' handler foo_bar) = Returns ()"
    and "snd (MustBind ''baz'' handler foo_bar) = snd (Bind ''baz'' handler foo_bar)"
    by metis+
  then have m2: "MustBind ''baz'' handler foo_bar = (Returns (), snd (Bind ''baz'' handler foo_bar))"
    by (simp add: prod_eq_iff)
  from baz b4 have "fst (MustBindSingleton ''baz'' handler foo_bar) = Returns ()"
    and "snd (MustBindSingleton ''baz'' handler foo_bar) = snd (BindSingleton ''baz'' handler foo_bar)"
    by metis+
  then have m4: "MustBindSingleton ''baz'' handler foo_bar =
     (Returns (), snd (BindSingleton ''baz'' handler foo_bar))"
    by (simp add: prod_eq_iff)
  from baz r1 have m5: "MustResolve TInt ''baz'' (Resolver 1) foo_bar =
     Some (Panics (PanicError (NotFound ''baz'')), foo_bar)"
    by blast
  from bar r2 have m6: "MustResolve TInt ''bar'' (Resolver 1) foo_bar =
     Some (Returns (Some (VInt 2)), foo_bar)"
    by blast
  from boom r3 have m7: "MustResolve TInt ''boom'' (Resolver 1) boom_bound =
     Some (Panics (PanicString ''boom''), boom_bound)"
    by blast
  from b1 b2 m1 m2 m3 m4 m5 m6 m7 show ?thesis by (simp add: AlreadyBound_def)
qed

text \<open>
  C8 as it was stated fails for a factory that panics: \<open>MustResolve[int]\<close> panics, and
  \<open>Resolve[int]\<close> has returned no error, since it has not returned: it panics as well.
\<close>

theorem MustResolve_panics_without_error:
  "MustResolve TInt ''boom'' (Resolver 1) boom_bound =
     Some (Panics (PanicString ''boom''), boom_bound) \<and>
   Resolve TInt ''boom'' (Resolver 1) boom_bound =
     Some (Panics (PanicString ''boom''), boom_bound)"
  by (simp add: MustResolve_def Resolve_def boom_bound_def boom_def with_nil_error_def)

section \<open>The resolver a factory is given\<close>

text \<open>
  C9: a factory found under a name is called with \<open>d.Resolver()\<close>, the resolver of the
  same container with the room the stack has left; and whatever that resolver returns
  for a name in a state, and whatever a factory does with it, is what a resolver of the
  container with as much room or more returns or lets the factory do in the same state.
  The resolver has no state of its own: it is a function of the program state alone.
\<close>

theorem Resolver_for_factories:
  "(services (container s) name = Some factory \<longrightarrow>
      Resolver (Suc n) name s = with_nil_error (invoke factory (Resolver n) s)) \<and>
   (\<forall>m r. n \<le> m \<and> Resolver n name s = Some r \<longrightarrow> Resolver m name s = Some r) \<and>
   (\<forall>m r. n \<le> m \<and> invoke factory (Resolver n) s = Some r \<longrightarrow>
      invoke factory (Resolver m) s = Some r)"
proof -
  have 1: "invoke factory (Resolver m) s = Some r"
    if "n \<le> m" "invoke factory (Resolver n) s = Some r" for m r
    using that(2) by (rule invoke_mono [rotated]) (rule Resolver_mono [OF that(1)])
  have 2: "Resolver m name s = Some r" if "n \<le> m" "Resolver n name s = Some r" for m r
    using that by (rule Resolver_mono)
  have 3: "Resolver (Suc n) name s = with_nil_error (invoke factory (Resolver n) s)"
    if "services (container s) name = Some factory"
    using that by simp
  from 1 2 3 show ?thesis by blast
qed

lemma invoke_rand:
  "invoke rand R (s\<lparr>vars := w\<rparr>) = Some (Returns (Some (VInt (w * 10))), s\<lparr>vars := w * 10\<rparr>)"
  by (simp add: rand_def)

lemma Resolver_rand_twice_bound:
  "Resolver (Suc n) ''rand'' (twice_bound\<lparr>vars := w\<rparr>) =
     Some (Returns (Some (VInt (w * 10)), None), twice_bound\<lparr>vars := w * 10\<rparr>)"
  using invoke_rand [where R = "Resolver n" and s = twice_bound and w = w]
  by (simp add: twice_bound_def with_nil_error_def)

text \<open>
  The factory \<open>twice\<close> resolves \<open>rand\<close> two times through the resolver it is given, with
  the results \<open>rand\<close> gives when it is resolved from outside.
\<close>

theorem Resolver_for_factories_witness:
  "Resolver 1 ''rand'' twice_bound =
     Some (Returns (Some (VInt 100), None), twice_bound\<lparr>vars := 100\<rparr>) \<and>
   Resolver 2 ''rand'' twice_bound =
     Some (Returns (Some (VInt 100), None), twice_bound\<lparr>vars := 100\<rparr>) \<and>
   invoke twice (Resolver 1) twice_bound =
     Some (Returns (Some (VInt 1000)), twice_bound\<lparr>vars := 1000\<rparr>) \<and>
   invoke twice (Resolver 2) twice_bound =
     Some (Returns (Some (VInt 1000)), twice_bound\<lparr>vars := 1000\<rparr>) \<and>
   Resolver 2 ''twice'' twice_bound =
     Some (Returns (Some (VInt 1000), None), twice_bound\<lparr>vars := 1000\<rparr>)"
proof -
  have tb: "twice_bound\<lparr>vars := 10\<rparr> = twice_bound"
    by (simp add: twice_bound_def)
  have r1: "Resolver 1 ''rand'' twice_bound =
     Some (Returns (Some (VInt 100), None), twice_bound\<lparr>vars := 100\<rparr>)"
    using Resolver_rand_twice_bound [of 0 10] by (simp add: tb)
  have i1: "invoke twice (Resolver 1) twice_bound =
     Some (Returns (Some (VInt 1000)), twice_bound\<lparr>vars := 1000\<rparr>)"
    using Resolver_rand_twice_bound [of 0 10] Resolver_rand_twice_bound [of 0 100]
    by (simp add: twice_def tb)
  have s: "services (container twice_bound) ''twice'' = Some twice"
    by (simp add: twice_bound_def)
  note rand = Resolver_for_factories [where n = 1 and name = "''rand''" and s = twice_bound
      and factory = twice]
  note twice = Resolver_for_factories [where n = 1 and name = "''twice''" and s = twice_bound
      and factory = twice]
  have le: "(1::nat) \<le> 2" by simp
  from rand le r1 have r2: "Resolver 2 ''rand'' twice_bound =
     Some (Returns (Some (VInt 100), None), twice_bound\<lparr>vars := 100\<rparr>)"
    by blast
  from rand le i1 have i2: "invoke twice (Resolver 2) twice_bound =
     Some (Returns (Some (VInt 1000)), twice_bound\<lparr>vars := 1000\<rparr>)"
    by blast
  from twice s have "Resolver (Suc 1) ''twice'' twice_bound =
      with_nil_error (invoke twice (Resolver 1) twice_bound)"
    by blast
  with i1 have "Resolver 2 ''twice'' twice_bound =
     Some (Returns (Some (VInt 1000), None), twice_bound\<lparr>vars := 1000\<rparr>)"
    by (simp add: with_nil_error_def numeral_2_eq_2 del: Resolver.simps invoke.simps)
  with r1 r2 i1 i2 show ?thesis by simp
qed

section \<open>Singletons\<close>

subsection \<open>Between calls the captured variables are settled\<close>
















subsection \<open>After the first call\<close>

lemma with_nil_error_Returns:
  "with_nil_error x = Some (Returns (v, err), s') \<Longrightarrow> x = Some (Returns v, s') \<and> err = None"
  by (auto simp: with_nil_error_def split: option.splits outcome.splits)

lemma with_nil_error_Panics:
  "with_nil_error x = Some (Panics p, s') \<Longrightarrow> x = Some (Panics p, s')"
  by (auto simp: with_nil_error_def split: option.splits outcome.splits)





subsection \<open>Goroutines: the mutex is held by one at most\<close>

lemma holding_simps [simp]:
  "holding a (Calling name, st) = length (filter (is_do a) st)"
  "holding a (Running b, st) = length (filter (is_do a) st)"
  "holding a (Locking a' b, st) = length (filter (is_do a) st)"
  "holding a (Checking a' b, st) = (if a' = a then 1 else 0) + length (filter (is_do a) st)"
  "holding a (Storing a' v, st) = (if a' = a then 1 else 0) + length (filter (is_do a) st)"
  "holding a (Marking a' c, st) = (if a' = a then 1 else 0) + length (filter (is_do a) st)"
  "holding a (Unlocking a' c, st) = (if a' = a then 1 else 0) + length (filter (is_do a) st)"
  "holding a (Returning a', st) = length (filter (is_do a) st)"
  "holding a (Finished r, st) = length (filter (is_do a) st)"
  by (simp_all add: holding_def)

lemma begun_simps [simp]:
  "begun a (Calling name, st) \<longleftrightarrow> (\<exists>fr\<in>set st. is_do a fr)"
  "begun a (Running b, st) \<longleftrightarrow> (\<exists>fr\<in>set st. is_do a fr)"
  "begun a (Locking a' b, st) \<longleftrightarrow> (\<exists>fr\<in>set st. is_do a fr)"
  "begun a (Checking a' b, st) \<longleftrightarrow> (\<exists>fr\<in>set st. is_do a fr)"
  "begun a (Storing a' v, st) \<longleftrightarrow> a' = a \<or> (\<exists>fr\<in>set st. is_do a fr)"
  "begun a (Marking a' c, st) \<longleftrightarrow> a' = a \<or> (\<exists>fr\<in>set st. is_do a fr)"
  "begun a (Unlocking a' c, st) \<longleftrightarrow> (\<exists>fr\<in>set st. is_do a fr)"
  "begun a (Returning a', st) \<longleftrightarrow> (\<exists>fr\<in>set st. is_do a fr)"
  "begun a (Finished r, st) \<longleftrightarrow> (\<exists>fr\<in>set st. is_do a fr)"
  by (simp_all add: begun_def)

lemma enters_simps [simp]:
  "enters a s (Calling name, st) = False"
  "enters a s (Running b, st) = False"
  "enters a s (Locking a' b, st) = False"
  "enters a s (Checking a' b, st) \<longleftrightarrow> a' = a \<and> \<not> lazyBind_done (lazies s ! a)"
  "enters a s (Storing a' v, st) = False"
  "enters a s (Marking a' c, st) = False"
  "enters a s (Unlocking a' c, st) = False"
  "enters a s (Returning a', st) = False"
  "enters a s (Finished r, st) = False"
  by (simp_all add: enters_def)

lemma is_do_simps [simp]:
  "is_do a (Do_frame a') \<longleftrightarrow> a' = a"
  "is_do a (Resolver_frame k) = False"
  by (simp_all add: is_do_def)

lemma holding_returns [simp]: "holding a (returns v st) = length (filter (is_do a) st)"
  by (cases "(v, st)" rule: returns.cases) auto

lemma holding_panics [simp]: "holding a (panics p st) = length (filter (is_do a) st)"
  by (cases "(p, st)" rule: panics.cases) auto

lemma begun_returns [simp]: "begun a (returns v st) \<longleftrightarrow> (\<exists>fr\<in>set st. is_do a fr)"
  by (cases "(v, st)" rule: returns.cases) auto

lemma begun_panics [simp]: "begun a (panics p st) \<longleftrightarrow> (\<exists>fr\<in>set st. is_do a fr)"
  by (cases "(p, st)" rule: panics.cases) auto

lemma filter_is_do_pos: "0 < length (filter (is_do a) st) \<longleftrightarrow> (\<exists>fr\<in>set st. is_do a fr)"
  by (simp add: filter_empty_conv)

lemma begun_holding: "begun a g \<Longrightarrow> 0 < holding a g"
  by (cases g) (auto simp: begun_def holding_def filter_empty_conv split: control.splits)

lemma Bind_lazies [simp]: "lazies (snd (Bind name b s)) = lazies s"
  by (simp add: Bind_def)

lemma BindSingleton_lazies [simp]: "lazies (snd (BindSingleton name b s)) = lazies s @ [new_lazy]"
  by (simp add: BindSingleton_def Bind_def)

lemma Lock_lazies [simp]: "lazies (Lock s) = lazies s"
  by (simp add: Lock_def)

lemma lazies_set_lazy [simp]: "lazies (set_lazy a f s) = (lazies s)[a := f (lazies s ! a)]"
  by (simp add: set_lazy_def)

lemma nth_update_if: "a < length xs \<Longrightarrow> xs[b := x] ! a = (if b = a then x else xs ! a)"
  by auto

text \<open>What one step of one goroutine does to the variables at an address.\<close>

lemma go_length:
  assumes "go s g = Some (s', g')"
  shows "length (lazies s) \<le> length (lazies s')"
  using assms
  by (cases "(s, g)" rule: go.cases)
    (auto split: option.splits prod.splits if_splits
      simp: prod_eq_iff [of "Bind _ _ _"] prod_eq_iff [of "BindSingleton _ _ _"])

lemma go_mutex:
  assumes "go s g = Some (s', g')" and "a < length (lazies s)"
  shows "lazyBind_m (lazies s' ! a) = lazyBind_m (lazies s ! a) \<and> holding a g' = holding a g \<or>
    \<not> lazyBind_m (lazies s ! a) \<and> lazyBind_m (lazies s' ! a) \<and> holding a g' = Suc (holding a g) \<or>
    \<not> lazyBind_m (lazies s' ! a) \<and> holding a g = Suc (holding a g')"
  using assms
  by (cases "(s, g)" rule: go.cases)
    (auto split: option.splits prod.splits if_splits
      simp: nth_update_if nth_append
        prod_eq_iff [of "Bind _ _ _"] prod_eq_iff [of "BindSingleton _ _ _"])


lemma go_marks:
  assumes "go s g = Some (s', g')" and "a < length (lazies s)"
    and "\<not> lazyBind_done (lazies s ! a)" and "lazyBind_done (lazies s' ! a)"
  shows "begun a g \<and> holding a g' = holding a g \<and> (begun a g' \<longrightarrow> 1 < holding a g)"
  using assms
  by (cases "(s, g)" rule: go.cases)
    (auto split: option.splits prod.splits if_splits
      simp: nth_update_if nth_append filter_empty_conv
        prod_eq_iff [of "Bind _ _ _"] prod_eq_iff [of "BindSingleton _ _ _"])

lemma go_begins:
  assumes "go s g = Some (s', g')" and "a < length (lazies s)"
  shows "begun a g' \<and> \<not> begun a g \<longleftrightarrow> enters a s g \<and> \<not> begun a g"
  using assms
  by (cases "(s, g)" rule: go.cases)
    (auto split: option.splits prod.splits if_splits
      simp: nth_update_if nth_append
        prod_eq_iff [of "Bind _ _ _"] prod_eq_iff [of "BindSingleton _ _ _"])

lemma go_enters:
  assumes "go s g = Some (s', g')" and "a < length (lazies s)" and "enters a s g"
  shows "\<not> lazyBind_done (lazies s' ! a) \<and> begun a g' \<and> 0 < holding a g"
  using assms
  by (cases "(s, g)" rule: go.cases)
    (auto split: option.splits prod.splits if_splits
      simp: nth_update_if nth_append
        prod_eq_iff [of "Bind _ _ _"] prod_eq_iff [of "BindSingleton _ _ _"])


lemma sum_list_map_update:
  fixes f :: "'a \<Rightarrow> nat"
  shows "i < length xs \<Longrightarrow>
    sum_list (map f (xs[i := y])) + f (xs ! i) = sum_list (map f xs) + f y"
proof (induction xs arbitrary: i)
  case Nil
  then show ?case by simp
next
  case (Cons x xs)
  show ?case
  proof (cases i)
    case 0
    then show ?thesis by simp
  next
    case (Suc k)
    with Cons.prems have "k < length xs" by simp
    from Cons.IH [OF this] Suc show ?thesis by simp
  qed
qed

lemma sum_list_map_one:
  fixes f :: "'a \<Rightarrow> nat"
  shows "i < length xs \<Longrightarrow> f (xs ! i) \<le> sum_list (map f xs)"
  using elem_le_sum_list [of i "map f xs"] by simp

lemma sum_list_map_two:
  fixes f :: "'a \<Rightarrow> nat"
  shows "i < length xs \<Longrightarrow> j < length xs \<Longrightarrow> i \<noteq> j \<Longrightarrow>
    f (xs ! i) + f (xs ! j) \<le> sum_list (map f xs)"
proof (induction xs arbitrary: i j)
  case Nil
  then show ?case by simp
next
  case (Cons x xs)
  show ?case
  proof (cases i)
    case 0
    with Cons.prems obtain k where k: "j = Suc k" "k < length xs" by (cases j) auto
    from sum_list_map_one [OF k(2), of f] 0 k(1) show ?thesis by simp
  next
    case (Suc i')
    show ?thesis
    proof (cases j)
      case 0
      from Suc Cons.prems have "i' < length xs" by simp
      from sum_list_map_one [OF this, of f] 0 Suc show ?thesis by simp
    next
      case (Suc j')
      with \<open>i = Suc i'\<close> Cons.prems have "i' < length xs" "j' < length xs" "i' \<noteq> j'"
        by simp_all
      from Cons.IH [OF this] Suc \<open>i = Suc i'\<close> show ?thesis by simp
    qed
  qed
qed

lemma mutex_arith:
  fixes S S' h h' :: nat
  assumes "S \<le> (if m then 1 else 0)" and "S' + h = S + h'" and "h \<le> S"
    and "m' = m \<and> h' = h \<or> \<not> m \<and> m' \<and> h' = Suc h \<or> \<not> m' \<and> h = Suc h'"
  shows "S' \<le> (if m' then 1 else 0)"
  using assms by (auto split: if_splits)

lemma in_set_update:
  assumes "x \<in> set (xs[i := y])"
  shows "x = y \<or> (\<exists>j<length xs. j \<noteq> i \<and> x = xs ! j)"
proof -
  from assms obtain k where k: "k < length xs" "x = xs[i := y] ! k"
    by (auto simp: in_set_conv_nth)
  show ?thesis
  proof (cases "k = i")
    case True
    with k show ?thesis by simp
  next
    case False
    with k show ?thesis by auto
  qed
qed

lemma step_cases:
  obtains (stays) "step i (s, gs) = (s, gs)"
      and "\<not> i < length gs \<or> go s (gs ! i) = None"
  | (moves) s' g' where "i < length gs" and "go s (gs ! i) = Some (s', g')"
      and "step i (s, gs) = (s', gs[i := g'])"
  by (cases "i < length gs"; cases "go s (gs ! i)") (auto simp: step_def)

lemma step_once_inv:
  assumes inv: "once_inv a (s, gs)"
  shows "once_inv a (step i (s, gs))"
proof (cases rule: step_cases [of i s gs])
  case stays
  with inv show ?thesis by simp
next
  case (moves s' g')
  let ?g = "gs ! i"
  let ?H = "sum_list (map (holding a) gs)"
  from inv have a: "a < length (lazies s)"
    and H: "?H \<le> (if lazyBind_m (lazies s ! a) then 1 else 0)"
    and B: "\<And>g. g \<in> set gs \<Longrightarrow> begun a g \<Longrightarrow> \<not> lazyBind_done (lazies s ! a)"
    by (auto simp: once_inv_def)
  note go = moves(2)
  from go_length [OF go] a have a': "a < length (lazies s')" by simp
  from sum_list_map_update [OF moves(1), of "holding a" g']
  have upd: "sum_list (map (holding a) (gs[i := g'])) + holding a ?g = ?H + holding a g'" .
  have le: "holding a ?g \<le> ?H" using moves(1) by (rule sum_list_map_one)
  from H upd le go_mutex [OF go a]
  have H': "sum_list (map (holding a) (gs[i := g'])) \<le>
      (if lazyBind_m (lazies s' ! a) then 1 else 0)"
    by (rule mutex_arith)
  have B': "\<not> lazyBind_done (lazies s' ! a)" if g'': "g'' \<in> set (gs[i := g'])" "begun a g''" for g''
  proof
    assume done': "lazyBind_done (lazies s' ! a)"
    from moves(1) have mem: "?g \<in> set gs" by simp
    show False
    proof (cases "lazyBind_done (lazies s ! a)")
      case True
      with B have nb: "\<not> begun a g" if "g \<in> set gs" for g using that by blast
      from in_set_update [OF g''(1)] g''(2) nb have "g'' = g'"
        by (metis nth_mem)
      with g''(2) nb [OF mem] go_begins [OF go a] have "enters a s ?g" by blast
      with go_enters [OF go a] done' show False by simp
    next
      case False
      from go_marks [OF go a False done'] have bg: "begun a ?g"
        and big: "begun a g' \<longrightarrow> 1 < holding a ?g"
        by simp_all
      from begun_holding [OF bg] have pos: "0 < holding a ?g" .
      from in_set_update [OF g''(1)] show False
      proof
        assume "g'' = g'"
        with g''(2) big le H show False by (auto split: if_splits)
      next
        assume "\<exists>j<length gs. j \<noteq> i \<and> g'' = gs ! j"
        then obtain j where j: "j < length gs" "j \<noteq> i" "g'' = gs ! j" by blast
        from sum_list_map_two [OF moves(1) j(1), of "holding a"] j(2)
        have "holding a ?g + holding a (gs ! j) \<le> ?H" by simp
        with pos begun_holding [OF g''(2)] j(3) H show False by (auto split: if_splits)
      qed
    qed
  qed
  from a' H' B' moves(3) show ?thesis by (auto simp: once_inv_def)
qed

lemma run_once_inv: "once_inv a cfg \<Longrightarrow> once_inv a (run schedule cfg)"
proof (induction schedule arbitrary: cfg)
  case Nil
  then show ?case by simp
next
  case (Cons i schedule)
  then show ?case using step_once_inv [of a "fst cfg" "snd cfg" i] by simp
qed

subsection \<open>Goroutines: the factory starts once\<close>










subsection \<open>Goroutines: every call returns the same value\<close>




lemma resolving_Cons [simp]:
  "resolving name a f s (c, fr # st) \<longleftrightarrow>
     last (fr # st) = Do_frame a \<and> (case c of Calling n \<Rightarrow> False | Finished r \<Rightarrow> False | _ \<Rightarrow> True)"
  by (simp add: resolving_def)

lemma resolving_Nil [simp]:
  "resolving name a f s (c, []) \<longleftrightarrow>
     (case c of
        Calling n \<Rightarrow> n = name
      | Running b \<Rightarrow> b = LazyBind a f
      | Locking a' b \<Rightarrow> a' = a
      | Checking a' b \<Rightarrow> a' = a
      | Storing a' v \<Rightarrow> a' = a
      | Marking a' unwinding \<Rightarrow> a' = a
      | Unlocking a' unwinding \<Rightarrow> a' = a \<and> lazyBind_done (lazies s ! a)
      | Returning a' \<Rightarrow> a' = a \<and> lazyBind_done (lazies s ! a)
      | Finished r \<Rightarrow>
          (case r of
             Returns (v, err) \<Rightarrow>
               lazyBind_done (lazies s ! a) \<and> v = result (lazies s ! a) \<and> err = None
           | Panics p \<Rightarrow> True))"
  by (simp add: resolving_def)





subsection \<open>One goroutine alone\<close>



lemma alone_0 [simp]: "alone 0 c = c"
  by (simp add: alone_def)

lemma alone_Suc: "go s g = Some (s', g') \<Longrightarrow> alone (Suc k) (s, g) = alone k (s', g')"
  by (simp add: alone_def step_def)


lemma alone_step: "go s g = Some c \<Longrightarrow> alone k c = c' \<Longrightarrow> alone (Suc k) (s, g) = c'"
  by (cases c) (simp add: alone_Suc)





subsection \<open>Any number of goroutines\<close>







end
